theory Spec2Isabelle
  imports Complex_Main
begin

section \<open>The board engine of the no-rotation falling-piece game\<close>

text \<open>
  This theory embeds the class \<open>Game\<close> (the board engine: grid, active piece, placement
  validity, line clearing, scoring and levels) as HOL functions over a record holding
  the fields of the object.

  Conventions of the embedding:
  \<^item> integer-valued JavaScript numbers (grid sizes, coordinates, counters) are \<open>int\<close>;
    the two timing fields and \<open>deltaTime\<close> are \<open>real\<close>, an exact idealisation of the
    doubles of the source (no property below depends on rounding);
  \<^item> a board cell is \<open>int option\<close>: \<open>Some v\<close> is the number \<open>v\<close>, \<open>None\<close> is a hole of
    a sparse array, which reads as \<open>undefined\<close>;
  \<^item> the score is \<open>int option\<close>, \<open>None\<close> being \<open>NaN\<close> (what
    \<open>SCORE_PER_LINE[n] * level\<close> gives once \<open>n\<close> leaves the table);
  \<^item> a method that can throw or loop returns \<open>(error + game) option\<close>: \<open>None\<close> means the
    call does not return, \<open>Some (Inl e)\<close> that it throws \<open>e\<close>, \<open>Some (Inr g)\<close> that it
    returns with the object in state \<open>g\<close>;
  \<^item> \<open>Math.floor(Math.random() * SHAPES.length)\<close> is an explicit argument
    \<open>randomIndex\<close> of every method that draws a shape; the source guarantees
    \<open>randomIndex < 7\<close>.
\<close>

subsection \<open>Constants\<close>

definition GRID_WIDTH :: int where "GRID_WIDTH = 10"
definition GRID_HEIGHT :: int where "GRID_HEIGHT = 20"
definition PREVIEW_COUNT :: nat where "PREVIEW_COUNT = 3"
definition BASE_FALL_SPEED :: real where "BASE_FALL_SPEED = 8 / 10"
definition FAST_FALL_SPEED :: real where "FAST_FALL_SPEED = 5 / 100"
definition LEVEL_UP_LINES :: int where "LEVEL_UP_LINES = 10"
definition SPEED_INCREASE_FACTOR :: real where "SPEED_INCREASE_FACTOR = 9 / 10"
definition SCORE_PER_LINE :: "int list" where "SCORE_PER_LINE = [0, 100, 300, 500, 800]"

subsection \<open>Data\<close>

text \<open>A shape definition: the \<open>[dx, dy]\<close> offsets relative to the pivot, and a colour.\<close>

record piece =
  shape :: "(int \<times> int) list"
  colorIndex :: int

definition SHAPES :: "piece list" where
  "SHAPES =
    [\<lparr>shape = [(0, 0), (-1, 0), (1, 0), (2, 0)], colorIndex = 0\<rparr>,
     \<lparr>shape = [(0, 0), (1, 0), (0, 1), (1, 1)], colorIndex = 1\<rparr>,
     \<lparr>shape = [(0, 0), (-1, 0), (1, 0), (0, 1)], colorIndex = 2\<rparr>,
     \<lparr>shape = [(0, 0), (-1, 0), (0, -1), (1, -1)], colorIndex = 3\<rparr>,
     \<lparr>shape = [(0, 0), (1, 0), (0, -1), (-1, -1)], colorIndex = 4\<rparr>,
     \<lparr>shape = [(0, 0), (-1, 0), (1, 0), (-1, 1)], colorIndex = 5\<rparr>,
     \<lparr>shape = [(0, 0), (-1, 0), (1, 0), (1, 1)], colorIndex = 6\<rparr>]"

datatype GameState = PLAYING | GAME_OVER

datatype error = TypeError | RangeError

text \<open>
  The fields of a \<open>Game\<close> object. \<open>currentPosition\<close> is the pair \<open>(x, y)\<close>; row 0 of
  \<open>board\<close> is the bottom row.
\<close>

record game =
  gridWidth :: int
  gridHeight :: int
  board :: "int option list list"
  currentPiece :: "piece option"
  currentPosition :: "int \<times> int"
  nextShapes :: "piece list"
  score :: "int option"
  linesCleared :: int
  level :: int
  fallTimer :: real
  currentFallSpeed :: real
  isDropping :: bool
  gameState :: GameState

text \<open>The per-frame input record handed to \<open>update\<close>.\<close>

record inputs =
  moveLeft :: bool
  moveRight :: bool
  drop_in :: bool
  selectShape_in :: "int option"

text \<open>The grid configuration handed to the constructor; an absent field is \<open>None\<close>.\<close>

record gridConfig =
  width :: "int option"
  height :: "int option"

subsection \<open>Array primitives\<close>

text \<open>\<open>Array(n).fill(0)\<close>: a \<open>RangeError\<close> unless \<open>n\<close> is an array length.\<close>

definition Array_fill0 :: "int \<Rightarrow> error + int option list" where
  "Array_fill0 n =
     (if 0 \<le> n \<and> n < 2 ^ 32 then Inr (replicate (nat n) (Some 0)) else Inl RangeError)"

text \<open>\<open>b[i]\<close> for a row index: \<open>None\<close> stands for \<open>undefined\<close>.\<close>

definition rowAt :: "int option list list \<Rightarrow> int \<Rightarrow> int option list option" where
  "rowAt b i = (if 0 \<le> i \<and> i < int (length b) then Some (b ! nat i) else None)"

text \<open>\<open>row[i]\<close>: a hole and an index out of range both read as \<open>undefined\<close>.\<close>

definition cellAt :: "int option list \<Rightarrow> int \<Rightarrow> int option" where
  "cellAt row i = (if 0 \<le> i \<and> i < int (length row) then row ! nat i else None)"

text \<open>\<open>row[i] = v\<close>: a write past the end extends the array, leaving holes.\<close>

definition setCell :: "int option list \<Rightarrow> nat \<Rightarrow> int \<Rightarrow> int option list" where
  "setCell row i v =
     (if i < length row then row[i := Some v]
      else row @ replicate (i - length row) None @ [Some v])"

text \<open>\<open>row.every(cell => cell !== 0)\<close>; \<open>every\<close> skips holes, and a hole is not \<open>0\<close>.\<close>

definition rowFull :: "int option list \<Rightarrow> bool" where
  "rowFull row = list_all (\<lambda>cell. cell \<noteq> Some 0) row"

text \<open>\<open>xs.splice(i, 1)\<close>: the array without its element \<open>i\<close>.\<close>

definition splice1 :: "nat \<Rightarrow> 'a list \<Rightarrow> 'a list" where
  "splice1 i xs = take i xs @ drop (Suc i) xs"

subsection \<open>Construction\<close>

text \<open>\<open>gridConfig.width || GRID_WIDTH\<close>: an absent or zero value gives the default.\<close>

definition orDefault :: "int option \<Rightarrow> int \<Rightarrow> int" where
  "orDefault v d = (case v of None \<Rightarrow> d | Some n \<Rightarrow> if n = 0 then d else n)"

definition Game :: "gridConfig \<Rightarrow> game" where
  "Game cfg =
     \<lparr>gridWidth = orDefault (width cfg) GRID_WIDTH,
      gridHeight = orDefault (height cfg) GRID_HEIGHT,
      board = [],
      currentPiece = None,
      currentPosition = (0, 0),
      nextShapes = [],
      score = Some 0,
      linesCleared = 0,
      level = 1,
      fallTimer = 0,
      currentFallSpeed = BASE_FALL_SPEED,
      isDropping = False,
      gameState = PLAYING\<rparr>"

definition generateRandomShape :: "nat \<Rightarrow> piece" where
  "generateRandomShape randomIndex = SHAPES ! randomIndex"

subsection \<open>Placement validity\<close>

text \<open>
  \<open>isValidMove(piece, position)\<close> (lines 147 to 168 of the engine source); first the
  body of its loop over the offsets of the piece.
\<close>

fun offsetsValid :: "game \<Rightarrow> int \<times> int \<Rightarrow> (int \<times> int) list \<Rightarrow> bool" where
  "offsetsValid g pos [] = True"
| "offsetsValid g pos ((dx, dy) # rest) =
     (let checkX = fst pos + dx; checkY = snd pos + dy in
      if checkX < 0 \<or> checkX \<ge> gridWidth g \<or> checkY < 0 then
        (if checkY \<ge> gridHeight g then offsetsValid g pos rest else False)
      else if checkY < gridHeight g \<and>
              (case rowAt (board g) checkY of
                 None \<Rightarrow> False
               | Some row \<Rightarrow> cellAt row checkX \<noteq> Some 0)
      then False
      else offsetsValid g pos rest)"

definition isValidMove :: "game \<Rightarrow> piece option \<Rightarrow> int \<times> int \<Rightarrow> bool" where
  "isValidMove g pc pos =
     (case pc of None \<Rightarrow> False | Some p \<Rightarrow> offsetsValid g pos (shape p))"

subsection \<open>Spawning and selection\<close>

text \<open>
  \<open>spawnNewPiece()\<close> (lines 113 to 139); first its \<open>forEach\<close>: the largest \<open>dy\<close>, starting
  from \<open>maxY = 0\<close>.
\<close>

definition maxY_of :: "(int \<times> int) list \<Rightarrow> int" where
  "maxY_of offs = foldl (\<lambda>maxY (dx, dy). if dy > maxY then dy else maxY) 0 offs"

definition spawnNewPiece :: "game \<Rightarrow> game" where
  "spawnNewPiece g =
     (let g1 = g\<lparr>isDropping := False, fallTimer := 0,
                 currentPosition := (gridWidth g div 2, gridHeight g - 1)\<rparr>;
          g2 = (case currentPiece g1 of
                  None \<Rightarrow> g1
                | Some p \<Rightarrow>
                    g1\<lparr>currentPosition :=
                         (fst (currentPosition g1), gridHeight g1 - 1 - maxY_of (shape p))\<rparr>)
      in if \<not> isValidMove g2 (currentPiece g2) (currentPosition g2)
         then g2\<lparr>gameState := GAME_OVER, currentPiece := None\<rparr>
         else g2)"

text \<open>
  \<open>selectShape(index)\<close> (lines 96 to 108). The entries of \<open>nextShapes\<close> are objects, so
  \<open>!this.nextShapes[index]\<close> holds exactly when \<open>index\<close> is out of range.
\<close>

definition selectShape :: "game \<Rightarrow> int \<Rightarrow> nat \<Rightarrow> game" where
  "selectShape g index randomIndex =
     (let invalid = (index < 0 \<or> index \<ge> int (length (nextShapes g)));
          idx = (if invalid then 0 else nat index)
      in if invalid \<and> nextShapes g = [] then g
         else spawnNewPiece
                (g\<lparr>currentPiece := Some (nextShapes g ! idx),
                   nextShapes := splice1 idx (nextShapes g) @ [generateRandomShape randomIndex]\<rparr>))"

subsection \<open>Line clearing\<close>

text \<open>
  \<open>clearLines()\<close> (lines 243 to 273); first its \<open>for\<close> loop, with \<open>W\<close> and \<open>H\<close> the grid width and height, \<open>y\<close>
  the loop index and \<open>cnt\<close> the running \<open>linesClearedCount\<close>. After a removal the
  index is not advanced (\<open>y--\<close> followed by \<open>y++\<close>). \<open>this.board[y].every\<close> throws when
  the board has no row \<open>y\<close>. The loop need not terminate (an empty row is full).
\<close>

partial_function (option) clearLoop ::
  "int \<Rightarrow> int \<Rightarrow> nat \<Rightarrow> int option list list \<Rightarrow> nat
     \<Rightarrow> (error + int option list list \<times> nat) option" where
  "clearLoop W H y b cnt =
     (if int y < H then
        (case rowAt b (int y) of
           None \<Rightarrow> Some (Inl TypeError)
         | Some row \<Rightarrow>
             if rowFull row then
               (case Array_fill0 W of
                  Inl e \<Rightarrow> Some (Inl e)
                | Inr fresh \<Rightarrow> clearLoop W H y (splice1 y b @ [fresh]) (cnt + 1))
             else clearLoop W H (y + 1) b cnt)
      else Some (Inr (b, cnt)))"

declare clearLoop.simps [code]

text \<open>\<open>SCORE_PER_LINE[n]\<close>: \<open>None\<close> is \<open>undefined\<close>.\<close>

definition scoreFor :: "nat \<Rightarrow> int option" where
  "scoreFor n = (if n < length SCORE_PER_LINE then Some (SCORE_PER_LINE ! n) else None)"

text \<open>\<open>this.score += SCORE_PER_LINE[n] * this.level\<close>, with \<open>NaN\<close> absorbing.\<close>

definition addScore :: "int option \<Rightarrow> nat \<Rightarrow> int \<Rightarrow> int option" where
  "addScore sc n lvl =
     (case (sc, scoreFor n) of
        (Some a, Some t) \<Rightarrow> Some (a + t * lvl)
      | _ \<Rightarrow> None)"

text \<open>The part of \<open>clearLines\<close> after the loop.\<close>

definition applyCleared :: "game \<Rightarrow> nat \<Rightarrow> game" where
  "applyCleared g linesClearedCount =
     (if linesClearedCount > 0 then
        (let g1 = g\<lparr>score := addScore (score g) linesClearedCount (level g),
                    linesCleared := linesCleared g + int linesClearedCount\<rparr>;
             newLevel = linesCleared g1 div LEVEL_UP_LINES + 1
         in if newLevel > level g1
            then g1\<lparr>level := newLevel,
                    currentFallSpeed :=
                      max FAST_FALL_SPEED
                        (BASE_FALL_SPEED * power_int SPEED_INCREASE_FACTOR (newLevel - 1))\<rparr>
            else g1)
      else g)"

definition clearLines :: "game \<Rightarrow> (error + game) option" where
  "clearLines g =
     (case clearLoop (gridWidth g) (gridHeight g) 0 (board g) 0 of
        None \<Rightarrow> None
      | Some (Inl e) \<Rightarrow> Some (Inl e)
      | Some (Inr (b, n)) \<Rightarrow> Some (Inr (applyCleared (g\<lparr>board := b\<rparr>) n)))"

subsection \<open>Locking a piece\<close>

text \<open>
  \<open>placePiece()\<close> (lines 217 to 238); first its \<open>forEach\<close>: each offset inside the grid is written with
  \<open>colorIndex + 1\<close>; \<open>this.board[boardY][boardX] = ...\<close> throws when the board has no
  row \<open>boardY\<close>.
\<close>

fun placeCells ::
  "game \<Rightarrow> piece \<Rightarrow> (int \<times> int) list \<Rightarrow> int option list list
     \<Rightarrow> error + int option list list" where
  "placeCells g p [] b = Inr b"
| "placeCells g p ((dx, dy) # rest) b =
     (let boardX = fst (currentPosition g) + dx;
          boardY = snd (currentPosition g) + dy
      in if boardY \<ge> 0 \<and> boardY < gridHeight g \<and> boardX \<ge> 0 \<and> boardX < gridWidth g then
           (case rowAt b boardY of
              None \<Rightarrow> Inl TypeError
            | Some row \<Rightarrow>
                placeCells g p rest
                  (b[nat boardY := setCell row (nat boardX) (colorIndex p + 1)]))
         else placeCells g p rest b)"

definition placePiece :: "game \<Rightarrow> (error + game) option" where
  "placePiece g =
     (case currentPiece g of
        None \<Rightarrow> Some (Inr g)
      | Some p \<Rightarrow>
          (case placeCells g p (shape p) (board g) of
             Inl e \<Rightarrow> Some (Inl e)
           | Inr b \<Rightarrow>
               (case clearLines (g\<lparr>board := b\<rparr>) of
                  None \<Rightarrow> None
                | Some (Inl e) \<Rightarrow> Some (Inl e)
                | Some (Inr g') \<Rightarrow>
                    Some (Inr (g'\<lparr>currentPiece := None, isDropping := False\<rparr>)))))"

subsection \<open>Movement\<close>

text \<open>\<open>moveHorizontal(direction)\<close>, \<open>moveDown()\<close> and \<open>startDropping()\<close> (lines 174 to 212).\<close>

definition moveHorizontal :: "game \<Rightarrow> int \<Rightarrow> game" where
  "moveHorizontal g direction =
     (if gameState g \<noteq> PLAYING \<or> currentPiece g = None then g
      else
        (let newPosition = (fst (currentPosition g) + direction, snd (currentPosition g))
         in if isValidMove g (currentPiece g) newPosition
            then g\<lparr>currentPosition := newPosition, fallTimer := 0\<rparr>
            else g))"

definition moveDown :: "game \<Rightarrow> (error + game) option" where
  "moveDown g =
     (if gameState g \<noteq> PLAYING \<or> currentPiece g = None then Some (Inr g)
      else
        (let newPosition = (fst (currentPosition g), snd (currentPosition g) - 1)
         in if isValidMove g (currentPiece g) newPosition
            then Some (Inr (g\<lparr>currentPosition := newPosition, fallTimer := 0\<rparr>))
            else
              (case placePiece g of
                 None \<Rightarrow> None
               | Some (Inl e) \<Rightarrow> Some (Inl e)
               | Some (Inr g') \<Rightarrow> Some (Inr (g'\<lparr>currentPiece := None, fallTimer := 0\<rparr>)))))"

definition startDropping :: "game \<Rightarrow> game" where
  "startDropping g =
     (if gameState g = PLAYING \<and> currentPiece g \<noteq> None then g\<lparr>isDropping := True\<rparr> else g)"

subsection \<open>The per-frame entry point\<close>

text \<open>
  \<open>update(deltaTime, inputs)\<close> (lines 280 to 316); \<open>inputs.selectShape\<close> is \<open>null\<close> or an
  index, here \<open>None\<close> or \<open>Some index\<close>.
\<close>

definition update :: "game \<Rightarrow> real \<Rightarrow> inputs \<Rightarrow> nat \<Rightarrow> (error + game) option" where
  "update g deltaTime inp randomIndex =
     (if gameState g \<noteq> PLAYING then Some (Inr g)
      else
        (case (currentPiece g, selectShape_in inp) of
           (None, Some index) \<Rightarrow> Some (Inr (selectShape g index randomIndex))
         | (None, None) \<Rightarrow> Some (Inr g)
         | (Some p, _) \<Rightarrow>
             (let g1 = (if moveLeft inp then moveHorizontal g (- 1) else g);
                  g2 = (if moveRight inp then moveHorizontal g1 1 else g1);
                  g3 = (if drop_in inp then startDropping g2 else g2);
                  g4 = g3\<lparr>fallTimer := fallTimer g3 + deltaTime\<rparr>;
                  speed = (if isDropping g4 then FAST_FALL_SPEED else currentFallSpeed g4)
              in if fallTimer g4 \<ge> speed then moveDown g4 else Some (Inr g4))))"

subsection \<open>Initialisation\<close>

text \<open>
  \<open>Array.from({ length: H }, () => Array(W).fill(0))\<close>: a negative length counts as 0,
  a length that is no array length throws, and so does the first row when \<open>W\<close> is no
  array length.
\<close>

definition emptyBoard :: "int \<Rightarrow> int \<Rightarrow> error + int option list list" where
  "emptyBoard W H =
     (if H \<le> 0 then Inr []
      else if H \<ge> 2 ^ 32 then Inl RangeError
      else (case Array_fill0 W of
              Inl e \<Rightarrow> Inl e
            | Inr row \<Rightarrow> Inr (replicate (nat H) row)))"

text \<open>
  \<open>init()\<close>; \<open>r0\<close>, \<open>r1\<close>, \<open>r2\<close> are the draws of the \<open>PREVIEW_COUNT = 3\<close> rounds of the
  preview loop, \<open>r3\<close> is the draw of \<open>selectShape(0)\<close>.
\<close>

definition init :: "game \<Rightarrow> nat \<Rightarrow> nat \<Rightarrow> nat \<Rightarrow> nat \<Rightarrow> error + game" where
  "init g r0 r1 r2 r3 =
     (case emptyBoard (gridWidth g) (gridHeight g) of
        Inl e \<Rightarrow> Inl e
      | Inr b \<Rightarrow>
          Inr (selectShape
                 (g\<lparr>board := b, score := Some 0, linesCleared := 0, level := 1,
                    currentFallSpeed := BASE_FALL_SPEED, isDropping := False,
                    fallTimer := 0, gameState := PLAYING,
                    nextShapes := [generateRandomShape r0, generateRandomShape r1,
                                   generateRandomShape r2]\<rparr>)
                 0 r3))"

subsection \<open>Well-formed boards\<close>

text \<open>
  The data-model invariant of the board: exactly \<open>gridHeight\<close> rows, each of exactly
  \<open>gridWidth\<close> cells.
\<close>

definition board_dims :: "int \<Rightarrow> int \<Rightarrow> int option list list \<Rightarrow> bool" where
  "board_dims W H b \<longleftrightarrow>
     int (length b) = H \<and> list_all (\<lambda>row. int (length row) = W) b"

definition dims_ok :: "game \<Rightarrow> bool" where
  "dims_ok g \<longleftrightarrow> board_dims (gridWidth g) (gridHeight g) (board g)"

text \<open>
  A well-formed engine state: a well-formed board whose width is a positive array
  length (rows of \<open>gridWidth\<close> cells exist only then).
\<close>

definition wf_game :: "game \<Rightarrow> bool" where
  "wf_game g \<longleftrightarrow> dims_ok g \<and> 0 < gridWidth g \<and> gridWidth g < 2 ^ 32"

text \<open>
  The collision test of \<open>isValidMove\<close> on the board cell in column \<open>cx\<close> of row \<open>cy\<close>.
\<close>

definition occupied :: "game \<Rightarrow> int \<Rightarrow> int \<Rightarrow> bool" where
  "occupied g cx cy = (case rowAt (board g) cy of None \<Rightarrow> False | Some row \<Rightarrow> cellAt row cx \<noteq> Some 0)"

subsection \<open>Calls and runs\<close>

text \<open>
  The methods an external caller can invoke on an initialised engine, each with its
  arguments (and its random draw, where it calls \<open>generateRandomShape\<close>).
\<close>

datatype call =
    SelectShape int nat
  | MoveHorizontal int
  | MoveDown
  | StartDropping
  | PlacePiece
  | ClearLines
  | Update real inputs nat

fun exec :: "game \<Rightarrow> call \<Rightarrow> (error + game) option" where
  "exec g (SelectShape index randomIndex) = Some (Inr (selectShape g index randomIndex))"
| "exec g (MoveHorizontal direction) = Some (Inr (moveHorizontal g direction))"
| "exec g MoveDown = moveDown g"
| "exec g StartDropping = Some (Inr (startDropping g))"
| "exec g PlacePiece = placePiece g"
| "exec g ClearLines = clearLines g"
| "exec g (Update deltaTime inp randomIndex) = update g deltaTime inp randomIndex"

text \<open>A sequence of calls, one after the other; a throw or a call that hangs ends it.\<close>

fun run :: "game \<Rightarrow> call list \<Rightarrow> (error + game) option" where
  "run g [] = Some (Inr g)"
| "run g (c # cs) =
     (case exec g c of
        None \<Rightarrow> None
      | Some (Inl e) \<Rightarrow> Some (Inl e)
      | Some (Inr g') \<Rightarrow> run g' cs)"


text \<open>
  The engine states reachable from \<open>new Game(cfg)\<close>: \<open>init()\<close> first, then any calls,
  among them \<open>init()\<close> again (the restart).
\<close>

inductive reachable :: "gridConfig \<Rightarrow> game \<Rightarrow> bool" for cfg :: gridConfig where
  start: "init (Game cfg) r0 r1 r2 r3 = Inr g \<Longrightarrow> reachable cfg g"
| restart: "reachable cfg g \<Longrightarrow> init g r0 r1 r2 r3 = Inr g' \<Longrightarrow> reachable cfg g'"
| step: "reachable cfg g \<Longrightarrow> exec g c = Some (Inr g') \<Longrightarrow> reachable cfg g'"

subsection \<open>Example states\<close>

text \<open>The engine right after \<open>new Game({})\<close> and \<open>init()\<close>, the four draws being 0, 1, 2, 3.\<close>

definition freshGame :: game where
  "freshGame =
     (case init (Game \<lparr>width = None, height = None\<rparr>) 0 1 2 3 of
        Inr g \<Rightarrow> g
      | Inl e \<Rightarrow> Game \<lparr>width = None, height = None\<rparr>)"



text \<open>
  A 4 by 3 engine with the given board, active piece and pivot, at level 1 with 9 lines
  cleared so far.
\<close>

definition smallGame :: "int option list list \<Rightarrow> piece option \<Rightarrow> int \<times> int \<Rightarrow> game" where
  "smallGame b pc pos =
     \<lparr>gridWidth = 4, gridHeight = 3, board = b, currentPiece = pc, currentPosition = pos,
      nextShapes = [SHAPES ! 0, SHAPES ! 1, SHAPES ! 2],
      score = Some 0, linesCleared = 9, level = 1, fallTimer = 0,
      currentFallSpeed = BASE_FALL_SPEED, isDropping = False, gameState = PLAYING\<rparr>"

text \<open>A board with one gap in its bottom row, and one with two full rows.\<close>

definition gapBoard :: "int option list list" where
  "gapBoard =
     [[Some 1, Some 0, Some 0, Some 1],
      [Some 0, Some 0, Some 0, Some 0],
      [Some 0, Some 0, Some 0, Some 0]]"

definition twoFullBoard :: "int option list list" where
  "twoFullBoard =
     [[Some 1, Some 1, Some 1, Some 1],
      [Some 2, Some 2, Some 2, Some 2],
      [Some 0, Some 3, Some 0, Some 0]]"

text \<open>
  A frame input that selects preview slot 1 and nothing else, and one that moves left
  while also asking for slot 1.
\<close>

definition selectInput :: inputs where
  "selectInput = \<lparr>moveLeft = False, moveRight = False, drop_in = False, selectShape_in = Some 1\<rparr>"

definition leftInput :: inputs where
  "leftInput = \<lparr>moveLeft = True, moveRight = False, drop_in = False, selectShape_in = Some 1\<rparr>"

subsection \<open>Auxiliary notions\<close>

text \<open>The calls named by the terminal-state property: the two moves and the frame update.\<close>

fun movement_call :: "call \<Rightarrow> bool" where
  "movement_call MoveDown = True"
| "movement_call (MoveHorizontal direction) = True"
| "movement_call (Update deltaTime inp randomIndex) = True"
| "movement_call c = False"

text \<open>The state with the last entry of the preview queue left out.\<close>

definition withoutLastPreview :: "game \<Rightarrow> game" where
  "withoutLastPreview g = g\<lparr>nextShapes := butlast (nextShapes g)\<rparr>"

section \<open>Properties\<close>

subsection \<open>Placement validity\<close>

lemma offsetsValid_iff:
  "offsetsValid g pos offs \<longleftrightarrow>
     (\<forall>(dx, dy) \<in> set offs.
        gridHeight g \<le> snd pos + dy \<or>
        (0 \<le> fst pos + dx \<and> fst pos + dx < gridWidth g \<and> 0 \<le> snd pos + dy \<and>
         \<not> occupied g (fst pos + dx) (snd pos + dy)))"
proof (induction offs)
  case Nil
  show ?case by simp
next
  case (Cons off rest)
  obtain dx dy where off: "off = (dx, dy)" by (cases off)
  show ?case
    unfolding off using Cons.IH
    by (auto simp: Let_def occupied_def)
qed

lemma dims_ok_cell:
  assumes "dims_ok g" "0 \<le> cx" "cx < gridWidth g" "0 \<le> cy" "cy < gridHeight g"
  shows "rowAt (board g) cy = Some (board g ! nat cy)"
    and "cellAt (board g ! nat cy) cx = board g ! nat cy ! nat cx"
proof -
  from assms have "cy < int (length (board g))" by (simp add: dims_ok_def board_dims_def)
  with assms have cy: "nat cy < length (board g)" by linarith
  then show "rowAt (board g) cy = Some (board g ! nat cy)"
    using assms by (simp add: rowAt_def)
  from assms cy have "int (length (board g ! nat cy)) = gridWidth g"
    by (simp add: dims_ok_def board_dims_def list_all_length)
  then show "cellAt (board g ! nat cy) cx = board g ! nat cy ! nat cx"
    using assms by (simp add: cellAt_def)
qed

lemma isValidMove_dims:
  assumes "dims_ok g"
  shows "isValidMove g (Some p) (px, py) \<longleftrightarrow>
     (\<forall>(dx, dy) \<in> set (shape p).
        gridHeight g \<le> py + dy \<or>
        (0 \<le> px + dx \<and> px + dx < gridWidth g \<and> 0 \<le> py + dy \<and>
         board g ! nat (py + dy) ! nat (px + dx) = Some 0))"
proof -
  have "(gridHeight g \<le> py + dy \<or>
        (0 \<le> px + dx \<and> px + dx < gridWidth g \<and> 0 \<le> py + dy \<and>
         \<not> occupied g (px + dx) (py + dy))) =
       (gridHeight g \<le> py + dy \<or>
        (0 \<le> px + dx \<and> px + dx < gridWidth g \<and> 0 \<le> py + dy \<and>
         board g ! nat (py + dy) ! nat (px + dx) = Some 0))" for dx dy
    using dims_ok_cell [OF assms, of "px + dx" "py + dy"] by (auto simp: occupied_def)
  then show ?thesis
    by (simp add: isValidMove_def offsetsValid_iff)
qed

subsection \<open>The line-clearing loop\<close>

lemma rowFull_emptyRow: "0 < W \<Longrightarrow> \<not> rowFull (replicate (nat W) (Some 0))"
  by (cases "nat W") (auto simp: rowFull_def)

lemma clearLoop_result:
  assumes "0 < W" "W < 2 ^ 32" "int (length b) = H" "y \<le> length b"
  shows "clearLoop W H y b cnt =
           Some (Inr (take y b @ filter (\<lambda>row. \<not> rowFull row) (drop y b) @
                        replicate (length (filter rowFull (drop y b))) (replicate (nat W) (Some 0)),
                      cnt + length (filter rowFull (drop y b))))"
  using assms
proof (induction "length (filter rowFull (drop y b)) + (length b - y)"
         arbitrary: y b cnt rule: less_induct)
  case less
  let ?e = "replicate (nat W) (Some 0)"
  show ?case
  proof (cases "y < length b")
    case False
    with less.prems have "y = length b" by simp
    with less.prems show ?thesis
      by (subst clearLoop.simps) simp
  next
    case True
    then have row: "rowAt b (int y) = Some (b ! y)" by (simp add: rowAt_def)
    from True less.prems have lt: "int y < H" by simp
    have dr: "drop y b = b ! y # drop (Suc y) b"
      using True by (simp add: Cons_nth_drop_Suc)
    show ?thesis
    proof (cases "rowFull (b ! y)")
      case False
      have "clearLoop W H y b cnt = clearLoop W H (y + 1) b cnt"
        using row lt False by (subst clearLoop.simps) simp
      also have "\<dots> = Some (Inr (take (y + 1) b @ filter (\<lambda>row. \<not> rowFull row) (drop (y + 1) b) @
                        replicate (length (filter rowFull (drop (y + 1) b))) ?e,
                      cnt + length (filter rowFull (drop (y + 1) b))))"
        using True False less.prems dr
        by (intro less.hyps) auto
      finally show ?thesis
        using True False dr by (simp add: take_Suc_conv_app_nth)
    next
      case full: True
      let ?b' = "splice1 y b @ [?e]"
      have len: "length ?b' = length b" using True by (simp add: splice1_def)
      have dr': "drop y ?b' = drop (Suc y) b @ [?e]"
        using True by (simp add: splice1_def)
      have tk': "take y ?b' = take y b"
        using True by (simp add: splice1_def)
      have ne: "\<not> rowFull ?e" using less.prems(1) by (rule rowFull_emptyRow)
      have "clearLoop W H y b cnt = clearLoop W H y ?b' (cnt + 1)"
        using row lt full less.prems by (subst clearLoop.simps) (simp add: Array_fill0_def)
      also have "\<dots> = Some (Inr (take y ?b' @ filter (\<lambda>row. \<not> rowFull row) (drop y ?b') @
                        replicate (length (filter rowFull (drop y ?b'))) ?e,
                      cnt + 1 + length (filter rowFull (drop y ?b'))))"
      proof (rule less.hyps)
        show "length (filter rowFull (drop y ?b')) + (length ?b' - y)
                < length (filter rowFull (drop y b)) + (length b - y)"
          unfolding len dr' using dr full ne by simp
        show "0 < W" "W < 2 ^ 32" by (rule less.prems)+
        show "int (length ?b') = H" unfolding len by (rule less.prems)
        show "y \<le> length ?b'" unfolding len by (rule less.prems)
      qed
      finally show ?thesis
        unfolding dr' tk' using dr full ne
        by (simp add: replicate_append_same)
    qed
  qed
qed

subsection \<open>Line clearing and locking keep the board well-formed\<close>

lemma applyCleared_frame:
  "board (applyCleared g n) = board g"
  "gridWidth (applyCleared g n) = gridWidth g"
  "gridHeight (applyCleared g n) = gridHeight g"
  "gameState (applyCleared g n) = gameState g"
  "currentPiece (applyCleared g n) = currentPiece g"
  "currentPosition (applyCleared g n) = currentPosition g"
  "nextShapes (applyCleared g n) = nextShapes g"
  by (simp_all add: applyCleared_def Let_def)

lemma applyCleared_counters:
  "linesCleared (applyCleared g n) = linesCleared g + int n"
  "level (applyCleared g n) =
     (if 0 < n then max (level g) ((linesCleared g + int n) div 10 + 1) else level g)"
  "score (applyCleared g n) = (if 0 < n then addScore (score g) n (level g) else score g)"
  by (simp_all add: applyCleared_def Let_def LEVEL_UP_LINES_def)

lemma clearLines_wf:
  assumes "wf_game g"
  shows "clearLines g =
           Some (Inr (applyCleared
                        (g\<lparr>board := filter (\<lambda>row. \<not> rowFull row) (board g) @
                                     replicate (length (filter rowFull (board g)))
                                       (replicate (nat (gridWidth g)) (Some 0))\<rparr>)
                        (length (filter rowFull (board g)))))"
proof -
  from assms have "0 < gridWidth g" "gridWidth g < 2 ^ 32"
    "int (length (board g)) = gridHeight g"
    by (simp_all add: wf_game_def dims_ok_def board_dims_def)
  then show ?thesis
    using clearLoop_result [of "gridWidth g" "board g" "gridHeight g" 0 0]
    by (simp add: clearLines_def)
qed



lemma placeCells_dims:
  assumes "board_dims (gridWidth g) (gridHeight g) b"
  shows "\<exists>b'. placeCells g p offs b = Inr b' \<and> board_dims (gridWidth g) (gridHeight g) b'"
  using assms
proof (induction offs arbitrary: b)
  case Nil
  then show ?case by simp
next
  case (Cons off rest)
  obtain dx dy where off: "off = (dx, dy)" by (cases off)
  let ?X = "fst (currentPosition g) + dx"
  let ?Y = "snd (currentPosition g) + dy"
  show ?case
  proof (cases "?Y \<ge> 0 \<and> ?Y < gridHeight g \<and> ?X \<ge> 0 \<and> ?X < gridWidth g")
    case False
    then show ?thesis
      unfolding off using Cons.IH [OF Cons.prems] by (auto simp: Let_def)
  next
    case True
    with Cons.prems have y: "nat ?Y < length b"
      by (auto simp: board_dims_def)
    with True have row: "rowAt b ?Y = Some (b ! nat ?Y)"
      by (simp add: rowAt_def)
    from y Cons.prems have "int (length (b ! nat ?Y)) = gridWidth g"
      by (simp add: board_dims_def list_all_length)
    with True have x: "nat ?X < length (b ! nat ?Y)" by linarith
    let ?b' = "b[nat ?Y := setCell (b ! nat ?Y) (nat ?X) (colorIndex p + 1)]"
    have "board_dims (gridWidth g) (gridHeight g) ?b'"
      using Cons.prems x y
      by (auto simp: board_dims_def list_all_length setCell_def nth_list_update)
    from Cons.IH [OF this] show ?thesis
      unfolding off using True row by (simp add: Let_def)
  qed
qed


subsection \<open>Every call keeps the board well-formed\<close>

lemma spawnNewPiece_frame:
  "board (spawnNewPiece g) = board g"
  "gridWidth (spawnNewPiece g) = gridWidth g"
  "gridHeight (spawnNewPiece g) = gridHeight g"
  "nextShapes (spawnNewPiece g) = nextShapes g"
  "score (spawnNewPiece g) = score g"
  "level (spawnNewPiece g) = level g"
  "linesCleared (spawnNewPiece g) = linesCleared g"
  by (simp_all add: spawnNewPiece_def Let_def split: option.splits)

lemma selectShape_frame:
  "board (selectShape g index r) = board g"
  "gridWidth (selectShape g index r) = gridWidth g"
  "gridHeight (selectShape g index r) = gridHeight g"
  "score (selectShape g index r) = score g"
  "level (selectShape g index r) = level g"
  "linesCleared (selectShape g index r) = linesCleared g"
  by (simp_all add: selectShape_def Let_def spawnNewPiece_frame)

lemma moveHorizontal_frame:
  "board (moveHorizontal g d) = board g"
  "gridWidth (moveHorizontal g d) = gridWidth g"
  "gridHeight (moveHorizontal g d) = gridHeight g"
  "gameState (moveHorizontal g d) = gameState g"
  "nextShapes (moveHorizontal g d) = nextShapes g"
  "currentPiece (moveHorizontal g d) = currentPiece g"
  by (simp_all add: moveHorizontal_def Let_def)

lemma startDropping_frame:
  "board (startDropping g) = board g"
  "gridWidth (startDropping g) = gridWidth g"
  "gridHeight (startDropping g) = gridHeight g"
  "gameState (startDropping g) = gameState g"
  "nextShapes (startDropping g) = nextShapes g"
  "currentPiece (startDropping g) = currentPiece g"
  by (simp_all add: startDropping_def)







subsection \<open>Evaluating the example states\<close>

text \<open>The definitions unfolded to evaluate the example states.\<close>

lemmas eval_defs =
  smallGame_def gapBoard_def twoFullBoard_def SHAPES_def dims_ok_def board_dims_def wf_game_def
  isValidMove_def rowAt_def cellAt_def Let_def

subsection \<open>Claim C1: placement validity\<close>

text \<open>
  Claim C1, as the code has it. On a well-formed board, \<open>isValidMove\<close> accepts a piece
  at a pivot exactly when every offset either lies in a row at or above \<open>gridHeight\<close>
  (such a row is always open, whatever the column) or lies on an empty cell of the
  board. Hence a negative row is always rejected, and a column outside
  \<open>[0, gridWidth)\<close> is rejected when the row of that offset is below \<open>gridHeight\<close>.
\<close>

theorem isValidMove_rules:
  assumes "dims_ok g"
  shows "(isValidMove g (Some p) (px, py) \<longleftrightarrow>
            (\<forall>(dx, dy) \<in> set (shape p).
               gridHeight g \<le> py + dy \<or>
               (0 \<le> px + dx \<and> px + dx < gridWidth g \<and> 0 \<le> py + dy \<and>
                board g ! nat (py + dy) ! nat (px + dx) = Some 0))) \<and>
         (\<forall>(dx, dy) \<in> set (shape p). py + dy < 0 \<longrightarrow> \<not> isValidMove g (Some p) (px, py)) \<and>
         (\<forall>(dx, dy) \<in> set (shape p).
            py + dy < gridHeight g \<and> (px + dx < 0 \<or> gridWidth g \<le> px + dx)
              \<longrightarrow> \<not> isValidMove g (Some p) (px, py))"
proof -
  from assms have "0 \<le> gridHeight g"
    by (auto simp: dims_ok_def board_dims_def)
  then show ?thesis
    unfolding isValidMove_dims [OF assms] by fastforce
qed

text \<open>
  On the 4 by 3 board with a gap in the bottom row, the square fits the gap, and is
  rejected on an occupied cell, below the floor and across the right edge.
\<close>

theorem isValidMove_rules_witness:
  "dims_ok (smallGame gapBoard None (0, 0)) \<and>
   isValidMove (smallGame gapBoard None (0, 0)) (Some (SHAPES ! 1)) (1, 0) \<and>
   \<not> isValidMove (smallGame gapBoard None (0, 0)) (Some (SHAPES ! 1)) (0, 0) \<and>
   \<not> isValidMove (smallGame gapBoard None (0, 0)) (Some (SHAPES ! 1)) (1, -1) \<and>
   \<not> isValidMove (smallGame gapBoard None (0, 0)) (Some (SHAPES ! 1)) (3, 1)"
proof -
  have h: "dims_ok (smallGame gapBoard None (0, 0))"
    by (simp add: smallGame_def gapBoard_def dims_ok_def board_dims_def)
  show ?thesis
    using h isValidMove_rules [OF h, of "SHAPES ! 1" 1 0]
      isValidMove_rules [OF h, of "SHAPES ! 1" 0 0]
      isValidMove_rules [OF h, of "SHAPES ! 1" 1 "-1"]
      isValidMove_rules [OF h, of "SHAPES ! 1" 3 1]
    by (simp add: smallGame_def gapBoard_def SHAPES_def)
qed

text \<open>
  Claim C1 as stated fails: on the freshly initialised 10 by 20 board the bar with its
  pivot at \<open>(-5, 20)\<close> has every column left of the board, and is accepted, because
  the guard for rows at or above \<open>gridHeight\<close> skips the offset before its column
  can reject it.
\<close>

theorem isValidMove_column_counterexample:
  "dims_ok freshGame \<and> gridWidth freshGame = 10 \<and> gridHeight freshGame = 20 \<and>
   (-1, 0) \<in> set (shape (SHAPES ! 0)) \<and> (-5) + (-1) < (0 :: int) \<and>
   isValidMove freshGame (Some (SHAPES ! 0)) (-5, 20)"
  by code_simp

subsection \<open>Claims C2 and C3: line clearing, the counter and the level\<close>

text \<open>
  Claim C2. On a well-formed engine state \<open>clearLines\<close> returns; the new board is the
  old one with every full row removed, the remaining rows in their order, and one
  empty row on top for each row removed. So no row of the new board is full (also when
  full rows are adjacent: the row that slides into a cleared index is examined too), and
  the number of rows is the same as before.
\<close>

theorem clearLines_removes_full_rows:
  assumes "wf_game g"
  shows "\<exists>g'. clearLines g = Some (Inr g') \<and>
           board g' = filter (\<lambda>row. \<not> rowFull row) (board g) @
                        replicate (length (filter rowFull (board g)))
                          (replicate (nat (gridWidth g)) (Some 0)) \<and>
           list_all (\<lambda>row. \<not> rowFull row) (board g') \<and>
           length (board g') = length (board g)"
proof -
  from assms have "0 < gridWidth g" by (simp add: wf_game_def)
  then have ne: "\<not> rowFull (replicate (nat (gridWidth g)) (Some 0))"
    by (rule rowFull_emptyRow)
  have "length (filter (\<lambda>row. \<not> rowFull row) (board g)) + length (filter rowFull (board g))
          = length (board g)"
    using sum_length_filter_compl [of rowFull "board g"] by simp
  then show ?thesis
    using ne by (auto simp: clearLines_wf [OF assms] applyCleared_frame list_all_iff)
qed

text \<open>Two adjacent full rows under a partly filled one: both go, the third slides down.\<close>

theorem clearLines_removes_full_rows_witness:
  "wf_game (smallGame twoFullBoard None (0, 0)) \<and>
   rowFull (twoFullBoard ! 0) \<and> rowFull (twoFullBoard ! 1) \<and>
   map_option (map_sum id board) (clearLines (smallGame twoFullBoard None (0, 0))) =
     Some (Inr [[Some 0, Some 3, Some 0, Some 0],
                [Some 0, Some 0, Some 0, Some 0],
                [Some 0, Some 0, Some 0, Some 0]])"
proof -
  have h: "wf_game (smallGame twoFullBoard None (0, 0))"
    by (simp add: eval_defs)
  from clearLines_removes_full_rows [OF h] obtain g' where
    g': "clearLines (smallGame twoFullBoard None (0, 0)) = Some (Inr g')"
        "board g' = filter (\<lambda>row. \<not> rowFull row) (board (smallGame twoFullBoard None (0, 0))) @
                      replicate (length (filter rowFull (board (smallGame twoFullBoard None (0, 0)))))
                        (replicate (nat (gridWidth (smallGame twoFullBoard None (0, 0)))) (Some 0))"
    by blast
  have "board g' = [[Some 0, Some 3, Some 0, Some 0],
                    [Some 0, Some 0, Some 0, Some 0],
                    [Some 0, Some 0, Some 0, Some 0]]"
    unfolding g'(2) by (simp add: eval_defs rowFull_def eval_nat_numeral)
  then show ?thesis
    using h g'(1) by (simp add: twoFullBoard_def rowFull_def)
qed

text \<open>
  Claim C3. On a well-formed engine state whose board has \<open>n > 0\<close> full rows,
  \<open>clearLines\<close> clears these \<open>n\<close> rows, adds \<open>n\<close> to \<open>linesCleared\<close>, and sets the level
  to the larger of the previous level and \<open>floor(linesCleared / 10) + 1\<close> of the new
  counter: the level rises exactly when that value exceeds it, and then takes that
  value at once, however many multiples of ten were passed.
\<close>

theorem clearLines_counts_and_levels:
  assumes "wf_game g" and "n = length (filter rowFull (board g))" and "0 < n"
  shows "\<exists>g'. clearLines g = Some (Inr g') \<and>
           linesCleared g' = linesCleared g + int n \<and>
           level g' = max (level g) (linesCleared g' div 10 + 1) \<and>
           (level g < level g' \<longleftrightarrow> level g < linesCleared g' div 10 + 1) \<and>
           (level g < linesCleared g' div 10 + 1 \<longrightarrow> level g' = linesCleared g' div 10 + 1)"
  using assms(2,3)
  by (auto simp: clearLines_wf [OF assms(1)] applyCleared_counters)

text \<open>
  Level 1 with 9 lines cleared so far: clearing 2 lines gives 11 lines and level 2.
  With 38 lines so far at level 1, the same clear gives 40 lines and level 5 at once.
\<close>

theorem clearLines_counts_and_levels_witness:
  "wf_game (smallGame twoFullBoard None (0, 0)) \<and>
   length (filter rowFull (board (smallGame twoFullBoard None (0, 0)))) = 2 \<and>
   map_option (map_sum id (\<lambda>g. (linesCleared g, level g)))
     (clearLines (smallGame twoFullBoard None (0, 0))) = Some (Inr (11, 2)) \<and>
   map_option (map_sum id (\<lambda>g. (linesCleared g, level g)))
     (clearLines ((smallGame twoFullBoard None (0, 0))\<lparr>linesCleared := 38\<rparr>)) = Some (Inr (40, 5))"
proof -
  let ?g = "smallGame twoFullBoard None (0, 0)"
  have h: "wf_game ?g" "wf_game (?g\<lparr>linesCleared := 38\<rparr>)"
    by (simp_all add: eval_defs)
  have n: "2 = length (filter rowFull (board ?g))"
    "2 = length (filter rowFull (board (?g\<lparr>linesCleared := 38\<rparr>)))"
    by (simp_all add: eval_defs rowFull_def)
  from clearLines_counts_and_levels [OF h(1) n(1)] obtain g1 where
    g1: "clearLines ?g = Some (Inr g1)" "linesCleared g1 = linesCleared ?g + int 2"
        "level g1 = max (level ?g) (linesCleared g1 div 10 + 1)"
    by auto
  from clearLines_counts_and_levels [OF h(2) n(2)] obtain g2 where
    g2: "clearLines (?g\<lparr>linesCleared := 38\<rparr>) = Some (Inr g2)"
        "linesCleared g2 = linesCleared (?g\<lparr>linesCleared := 38\<rparr>) + int 2"
        "level g2 = max (level (?g\<lparr>linesCleared := 38\<rparr>)) (linesCleared g2 div 10 + 1)"
    by auto
  have "linesCleared g1 = 11" "level g1 = 2" "linesCleared g2 = 40" "level g2 = 5"
    unfolding g1(2,3) g2(2,3) by (simp_all add: smallGame_def)
  then show ?thesis
    using h n g1(1) g2(1) by simp
qed

subsection \<open>Claim C4: the score of a placement\<close>

lemma placePiece_result:
  assumes "wf_game g" and "currentPiece g = Some p"
    and "placeCells g p (shape p) (board g) = Inr b"
    and "board_dims (gridWidth g) (gridHeight g) b"
  shows "placePiece g =
           Some (Inr ((applyCleared
                         (g\<lparr>board := filter (\<lambda>row. \<not> rowFull row) b @
                                      replicate (length (filter rowFull b))
                                        (replicate (nat (gridWidth g)) (Some 0))\<rparr>)
                         (length (filter rowFull b)))
                      \<lparr>currentPiece := None, isDropping := False\<rparr>))"
proof -
  from assms have "wf_game (g\<lparr>board := b\<rparr>)"
    by (simp add: wf_game_def dims_ok_def)
  from clearLines_wf [OF this] show ?thesis
    using assms(2,3) by (simp add: placePiece_def)
qed

text \<open>
  Claim C4. On a well-formed engine state with an active piece, \<open>placePiece\<close> writes
  the cells of the piece, runs the line clearing once and returns. With \<open>n\<close> the number
  of full rows of the board after the write, the \<open>n\<close> rows are counted in
  \<open>linesCleared\<close>, and for \<open>n \<le> 4\<close> the score grows by exactly
  \<open>SCORE_PER_LINE[n] * level\<close>, the level being the one before the call; for \<open>n = 0\<close>
  the score is unchanged.
\<close>

theorem placePiece_awards_once:
  assumes "wf_game g" and "currentPiece g = Some p"
    and "placeCells g p (shape p) (board g) = Inr b"
    and "n = length (filter rowFull b)" and "n \<le> 4" and "score g = Some sc"
  shows "\<exists>g'. placePiece g = Some (Inr g') \<and>
           score g' = Some (sc + SCORE_PER_LINE ! n * level g) \<and>
           (n = 0 \<longrightarrow> score g' = score g) \<and>
           linesCleared g' = linesCleared g + int n"
proof -
  from assms(1) have "board_dims (gridWidth g) (gridHeight g) (board g)"
    by (simp add: wf_game_def dims_ok_def)
  from placeCells_dims [OF this, of p "shape p"] assms(3)
  have "board_dims (gridWidth g) (gridHeight g) b" by simp
  note res = placePiece_result [OF assms(1,2,3) this]
  have "addScore (Some sc) n (level g) = Some (sc + SCORE_PER_LINE ! n * level g)"
    using assms(5) by (simp add: addScore_def scoreFor_def SCORE_PER_LINE_def)
  moreover have "n = 0 \<Longrightarrow> SCORE_PER_LINE ! n = 0"
    by (simp add: SCORE_PER_LINE_def)
  ultimately show ?thesis
    unfolding res using assms(4,6) by (auto simp: applyCleared_counters)
qed

text \<open>
  The square dropped into the gap of the bottom row at level 1: one row is cleared, the
  score goes from 0 to 100, the counter from 9 to 10.
\<close>

theorem placePiece_awards_once_witness:
  "wf_game (smallGame gapBoard (Some (SHAPES ! 1)) (1, 0)) \<and>
   placeCells (smallGame gapBoard (Some (SHAPES ! 1)) (1, 0)) (SHAPES ! 1) (shape (SHAPES ! 1))
       gapBoard =
     Inr [[Some 1, Some 2, Some 2, Some 1],
          [Some 0, Some 2, Some 2, Some 0],
          [Some 0, Some 0, Some 0, Some 0]] \<and>
   map_option (map_sum id (\<lambda>g. (score g, linesCleared g)))
     (placePiece (smallGame gapBoard (Some (SHAPES ! 1)) (1, 0))) = Some (Inr (Some 100, 10))"
proof -
  let ?g = "smallGame gapBoard (Some (SHAPES ! 1)) (1, 0)"
  let ?b = "[[Some 1, Some 2, Some 2, Some 1],
             [Some 0, Some 2, Some 2, Some 0],
             [Some 0, Some 0, Some 0, Some (0 :: int)]]"
  have h: "wf_game ?g" "currentPiece ?g = Some (SHAPES ! 1)" "score ?g = Some 0"
    by (simp_all add: eval_defs)
  have b: "placeCells ?g (SHAPES ! 1) (shape (SHAPES ! 1)) (board ?g) = Inr ?b"
    by (simp add: eval_defs setCell_def)
  have n: "1 = length (filter rowFull ?b)" "(1 :: nat) \<le> 4"
    by (simp_all add: rowFull_def)
  from placePiece_awards_once [OF h(1,2) b n h(3)] obtain g' where
    g': "placePiece ?g = Some (Inr g')"
        "score g' = Some (0 + SCORE_PER_LINE ! 1 * level ?g)"
        "linesCleared g' = linesCleared ?g + int 1"
    by blast
  have "score g' = Some 100" "linesCleared g' = 10"
    unfolding g'(2,3) by (simp_all add: smallGame_def SCORE_PER_LINE_def)
  then show ?thesis
    using h(1) b g'(1) by (simp add: smallGame_def)
qed

subsection \<open>Selection, spawning and the game status\<close>

lemma offsetsValid_cong:
  "board g' = board g \<Longrightarrow> gridWidth g' = gridWidth g \<Longrightarrow> gridHeight g' = gridHeight g
     \<Longrightarrow> offsetsValid g' pos offs = offsetsValid g pos offs"
  by (simp add: offsetsValid_iff occupied_def)

lemma isValidMove_cong:
  "board g' = board g \<Longrightarrow> gridWidth g' = gridWidth g \<Longrightarrow> gridHeight g' = gridHeight g
     \<Longrightarrow> isValidMove g' pc pos = isValidMove g pc pos"
  by (simp add: isValidMove_def offsetsValid_cong [of g' g] split: option.splits)

lemma spawnNewPiece_Some:
  assumes "currentPiece g = Some p"
  defines "pos \<equiv> (gridWidth g div 2, gridHeight g - 1 - maxY_of (shape p))"
  shows "spawnNewPiece g =
           (if isValidMove g (Some p) pos
            then g\<lparr>isDropping := False, fallTimer := 0, currentPosition := pos\<rparr>
            else g\<lparr>isDropping := False, fallTimer := 0, currentPosition := pos,
                   gameState := GAME_OVER, currentPiece := None\<rparr>)"
proof -
  let ?g2 = "g\<lparr>isDropping := False, fallTimer := 0, currentPosition := pos\<rparr>"
  have "isValidMove ?g2 (Some p) pos = isValidMove g (Some p) pos"
    by (rule isValidMove_cong) simp_all
  then show ?thesis
    using assms(1) by (simp add: spawnNewPiece_def Let_def pos_def)
qed

lemma maxY_of_catalog:
  "p \<in> set SHAPES \<Longrightarrow> maxY_of (shape p) = Max (snd ` set (shape p))"
  by (auto simp: SHAPES_def maxY_of_def)

lemma selectShape_cases:
  obtains (unchanged) "selectShape g index r = g"
  | (spawned) p where "p \<in> set (nextShapes g)"
      "selectShape g index r =
         spawnNewPiece (g\<lparr>currentPiece := Some p,
                          nextShapes := splice1 (if index < 0 \<or> index \<ge> int (length (nextShapes g))
                                                  then 0 else nat index) (nextShapes g) @
                                        [generateRandomShape r]\<rparr>)"
proof (cases "(index < 0 \<or> index \<ge> int (length (nextShapes g))) \<and> nextShapes g = []")
  case True
  then have "selectShape g index r = g" by (auto simp: selectShape_def Let_def)
  then show ?thesis by (rule unchanged)
next
  case False
  let ?idx = "if index < 0 \<or> index \<ge> int (length (nextShapes g)) then 0 else nat index"
  from False have "?idx < length (nextShapes g)" by auto
  then have "nextShapes g ! ?idx \<in> set (nextShapes g)" by (rule nth_mem)
  moreover have "selectShape g index r =
         spawnNewPiece (g\<lparr>currentPiece := Some (nextShapes g ! ?idx),
                          nextShapes := splice1 ?idx (nextShapes g) @ [generateRandomShape r]\<rparr>)"
    using False by (auto simp: selectShape_def Let_def)
  ultimately show ?thesis by (rule spawned)
qed

lemma selectShape_status:
  assumes "gameState (selectShape g index r) \<noteq> gameState g"
  shows "gameState (selectShape g index r) = GAME_OVER \<and>
         currentPiece (selectShape g index r) = None \<and>
         (\<exists>p \<in> set (nextShapes g).
            currentPosition (selectShape g index r) =
              (gridWidth g div 2, gridHeight g - 1 - maxY_of (shape p)) \<and>
            \<not> isValidMove g (Some p) (currentPosition (selectShape g index r)))"
proof (cases rule: selectShape_cases [of g index r])
  case unchanged
  with assms show ?thesis by simp
next
  case (spawned p)
  let ?g0 = "g\<lparr>currentPiece := Some p,
                nextShapes := splice1 (if index < 0 \<or> index \<ge> int (length (nextShapes g))
                                        then 0 else nat index) (nextShapes g) @
                              [generateRandomShape r]\<rparr>"
  let ?pos = "(gridWidth g div 2, gridHeight g - 1 - maxY_of (shape p))"
  have v: "isValidMove ?g0 (Some p) ?pos = isValidMove g (Some p) ?pos"
    by (rule isValidMove_cong) simp_all
  have sp: "spawnNewPiece ?g0 =
           (if isValidMove g (Some p) ?pos
            then ?g0\<lparr>isDropping := False, fallTimer := 0, currentPosition := ?pos\<rparr>
            else ?g0\<lparr>isDropping := False, fallTimer := 0, currentPosition := ?pos,
                   gameState := GAME_OVER, currentPiece := None\<rparr>)"
    using spawnNewPiece_Some [of ?g0 p] v by simp
  show ?thesis
  proof (cases "isValidMove g (Some p) ?pos")
    case True
    with assms spawned(2) sp show ?thesis by simp
  next
    case False
    with spawned sp show ?thesis by auto
  qed
qed

lemma clearLines_status:
  "clearLines g = Some (Inr g') \<Longrightarrow> gameState g' = gameState g"
  by (auto simp: clearLines_def applyCleared_frame split: option.splits sum.splits prod.splits)

lemma placePiece_status:
  "placePiece g = Some (Inr g') \<Longrightarrow> gameState g' = gameState g"
  by (auto simp: placePiece_def split: option.splits sum.splits dest!: clearLines_status)

lemma moveDown_status:
  "moveDown g = Some (Inr g') \<Longrightarrow> gameState g' = gameState g"
  by (auto simp: moveDown_def Let_def split: if_splits option.splits sum.splits
           dest!: placePiece_status)

lemma update_cases:
  obtains (idle) "update g dt inp r = Some (Inr g)"
  | (select) index where "currentPiece g = None" "selectShape_in inp = Some index"
      "gameState g = PLAYING" "update g dt inp r = Some (Inr (selectShape g index r))"
  | (fall) g4 where "currentPiece g \<noteq> None" "gameState g = PLAYING"
      "board g4 = board g" "gridWidth g4 = gridWidth g" "gridHeight g4 = gridHeight g"
      "gameState g4 = gameState g" "nextShapes g4 = nextShapes g"
      "update g dt inp r = moveDown g4 \<or> update g dt inp r = Some (Inr g4)"
proof (cases "gameState g \<noteq> PLAYING")
  case True
  then have "update g dt inp r = Some (Inr g)" by (simp add: update_def)
  then show ?thesis by (rule idle)
next
  case playing: False
  show ?thesis
  proof (cases "currentPiece g")
    case None
    show ?thesis
    proof (cases "selectShape_in inp")
      case n: None
      with None playing have "update g dt inp r = Some (Inr g)" by (simp add: update_def)
      then show ?thesis by (rule idle)
    next
      case (Some index)
      with None playing
      have "update g dt inp r = Some (Inr (selectShape g index r))" by (simp add: update_def)
      with None Some playing show ?thesis by (intro select) simp_all
    qed
  next
    case (Some p)
    define g1 where "g1 = (if moveLeft inp then moveHorizontal g (- 1) else g)"
    define g2 where "g2 = (if moveRight inp then moveHorizontal g1 1 else g1)"
    define g3 where "g3 = (if drop_in inp then startDropping g2 else g2)"
    define g4 where "g4 = g3\<lparr>fallTimer := fallTimer g3 + dt\<rparr>"
    have f1: "board g1 = board g" "gridWidth g1 = gridWidth g" "gridHeight g1 = gridHeight g"
      "gameState g1 = gameState g" "nextShapes g1 = nextShapes g"
      by (simp_all add: g1_def moveHorizontal_frame)
    have f2: "board g2 = board g" "gridWidth g2 = gridWidth g" "gridHeight g2 = gridHeight g"
      "gameState g2 = gameState g" "nextShapes g2 = nextShapes g"
      by (simp_all add: g2_def moveHorizontal_frame f1)
    have f3: "board g3 = board g" "gridWidth g3 = gridWidth g" "gridHeight g3 = gridHeight g"
      "gameState g3 = gameState g" "nextShapes g3 = nextShapes g"
      by (simp_all add: g3_def startDropping_frame f2)
    have f4: "board g4 = board g" "gridWidth g4 = gridWidth g" "gridHeight g4 = gridHeight g"
      "gameState g4 = gameState g" "nextShapes g4 = nextShapes g"
      by (simp_all add: g4_def f3)
    have "update g dt inp r = moveDown g4 \<or> update g dt inp r = Some (Inr g4)"
      using playing Some by (simp add: update_def Let_def g1_def g2_def g3_def g4_def)
    with Some playing f4 show ?thesis by (intro fall [of g4]) simp_all
  qed
qed

lemma exec_status:
  assumes "exec g c = Some (Inr g')" and "gameState g' \<noteq> gameState g"
  shows "\<exists>index r. g' = selectShape g index r"
proof (cases c)
  case (SelectShape index r)
  with assms show ?thesis by auto
next
  case (MoveHorizontal d)
  with assms show ?thesis by (auto simp: moveHorizontal_frame)
next
  case MoveDown
  with assms show ?thesis by (auto dest: moveDown_status)
next
  case StartDropping
  with assms show ?thesis by (auto simp: startDropping_frame)
next
  case PlacePiece
  with assms show ?thesis by (auto dest: placePiece_status)
next
  case ClearLines
  with assms show ?thesis by (auto dest: clearLines_status)
next
  case (Update dt inp r)
  show ?thesis
  proof (cases rule: update_cases [of g dt inp r])
    case idle
    with assms Update show ?thesis by simp
  next
    case (select index)
    with assms Update show ?thesis by auto
  next
    case (fall g4)
    with assms(1) Update have "moveDown g4 = Some (Inr g') \<or> g4 = g'" by auto
    then have "gameState g' = gameState g4" by (auto dest: moveDown_status)
    with assms(2) fall show ?thesis by simp
  qed
qed

subsection \<open>The preview queue\<close>

text \<open>
  No call but \<open>selectShape\<close> touches the preview queue, and every reachable state
  holds exactly three shapes in it.
\<close>

lemma clearLines_queue:
  "clearLines g = Some (Inr g') \<Longrightarrow> nextShapes g' = nextShapes g"
  by (auto simp: clearLines_def applyCleared_frame split: option.splits sum.splits prod.splits)

lemma placePiece_queue:
  "placePiece g = Some (Inr g') \<Longrightarrow> nextShapes g' = nextShapes g"
  by (auto simp: placePiece_def split: option.splits sum.splits dest!: clearLines_queue)

lemma moveDown_queue:
  "moveDown g = Some (Inr g') \<Longrightarrow> nextShapes g' = nextShapes g"
  by (auto simp: moveDown_def Let_def split: if_splits option.splits sum.splits
           dest!: placePiece_queue)

lemma selectShape_queue_length:
  "length (nextShapes g) = 3 \<Longrightarrow> length (nextShapes (selectShape g index r)) = 3"
  by (auto simp: selectShape_def Let_def spawnNewPiece_frame splice1_def)

lemma exec_queue_length:
  assumes "exec g c = Some (Inr g')" and "length (nextShapes g) = 3"
  shows "length (nextShapes g') = 3"
proof (cases c)
  case (SelectShape index r)
  with assms show ?thesis by (auto simp: selectShape_queue_length)
next
  case (MoveHorizontal d)
  with assms show ?thesis by (auto simp: moveHorizontal_frame)
next
  case MoveDown
  with assms show ?thesis by (auto dest: moveDown_queue)
next
  case StartDropping
  with assms show ?thesis by (auto simp: startDropping_frame)
next
  case PlacePiece
  with assms show ?thesis by (auto dest: placePiece_queue)
next
  case ClearLines
  with assms show ?thesis by (auto dest: clearLines_queue)
next
  case (Update dt inp r)
  show ?thesis
  proof (cases rule: update_cases [of g dt inp r])
    case idle
    with assms Update show ?thesis by simp
  next
    case (select index)
    with assms Update show ?thesis by (auto simp: selectShape_queue_length)
  next
    case (fall g4)
    with assms(1) Update have "moveDown g4 = Some (Inr g') \<or> g4 = g'" by auto
    then have "nextShapes g' = nextShapes g4" by (auto dest: moveDown_queue)
    with assms(2) fall show ?thesis by simp
  qed
qed

lemma init_queue_length:
  "init g r0 r1 r2 r3 = Inr g' \<Longrightarrow> length (nextShapes g') = 3"
  by (auto simp: init_def selectShape_queue_length split: sum.splits)

lemma reachable_queue_length:
  "reachable cfg g \<Longrightarrow> length (nextShapes g) = 3"
  by (induction rule: reachable.induct)
     (auto simp: init_queue_length exec_queue_length)

subsection \<open>Claim C5: the spawn position and the only way to GAME_OVER\<close>

text \<open>
  Claim C5. Spawning a catalog shape puts the pivot at \<open>x = floor(gridWidth / 2)\<close>,
  \<open>y = gridHeight - 1 - maxDy\<close>, \<open>maxDy\<close> being the largest \<open>dy\<close> of the shape. If
  \<open>isValidMove\<close> rejects that position the status becomes \<open>GAME_OVER\<close> and the active
  piece is cleared; otherwise status and piece stay. \<open>selectShape\<close> always returns (it
  has no throwing branch). No other path changes the status: whenever a call returns
  with another status than before, the new status is \<open>GAME_OVER\<close>, no piece is active, and
  a shape of the preview queue was rejected by \<open>isValidMove\<close> at its spawn position.
\<close>

theorem spawn_position_and_game_over:
  "(p \<in> set SHAPES \<and> currentPiece g = Some p \<longrightarrow>
      currentPosition (spawnNewPiece g) =
        (gridWidth g div 2, gridHeight g - 1 - Max (snd ` set (shape p)))) \<and>
   (currentPiece g = Some p \<longrightarrow>
      (if isValidMove g (Some p) (currentPosition (spawnNewPiece g))
       then gameState (spawnNewPiece g) = gameState g \<and>
            currentPiece (spawnNewPiece g) = Some p
       else gameState (spawnNewPiece g) = GAME_OVER \<and>
            currentPiece (spawnNewPiece g) = None)) \<and>
   (\<exists>g1. exec g (SelectShape index r) = Some (Inr g1)) \<and>
   (exec g c = Some (Inr g') \<and> gameState g' \<noteq> gameState g \<longrightarrow>
      gameState g' = GAME_OVER \<and> currentPiece g' = None \<and>
      (\<exists>q \<in> set (nextShapes g).
         currentPosition g' = (gridWidth g div 2, gridHeight g - 1 - maxY_of (shape q)) \<and>
         \<not> isValidMove g (Some q) (currentPosition g')))"
proof (intro conjI impI)
  assume "p \<in> set SHAPES \<and> currentPiece g = Some p"
  then show "currentPosition (spawnNewPiece g) =
               (gridWidth g div 2, gridHeight g - 1 - Max (snd ` set (shape p)))"
    by (simp add: spawnNewPiece_Some maxY_of_catalog)
next
  assume "currentPiece g = Some p"
  then show "if isValidMove g (Some p) (currentPosition (spawnNewPiece g))
       then gameState (spawnNewPiece g) = gameState g \<and>
            currentPiece (spawnNewPiece g) = Some p
       else gameState (spawnNewPiece g) = GAME_OVER \<and>
            currentPiece (spawnNewPiece g) = None"
    by (simp add: spawnNewPiece_Some)
next
  show "\<exists>g1. exec g (SelectShape index r) = Some (Inr g1)" by simp
next
  assume a: "exec g c = Some (Inr g') \<and> gameState g' \<noteq> gameState g"
  then obtain i k where g': "g' = selectShape g i k"
    using exec_status by blast
  with a have "gameState (selectShape g i k) \<noteq> gameState g" by simp
  from selectShape_status [OF this] g'
  show "gameState g' = GAME_OVER" "currentPiece g' = None"
    "\<exists>q \<in> set (nextShapes g).
         currentPosition g' = (gridWidth g div 2, gridHeight g - 1 - maxY_of (shape q)) \<and>
         \<not> isValidMove g (Some q) (currentPosition g')"
    by simp_all
qed

text \<open>
  The square spawns at \<open>(5, 18)\<close> on the 10 by 20 board. On the 4 by 3 board the bar does
  not fit at its spawn position (its right end is in column 4), so selecting it ends
  the game.
\<close>

theorem spawn_position_and_game_over_witness:
  "SHAPES ! 1 \<in> set SHAPES \<and>
   currentPosition (spawnNewPiece (freshGame\<lparr>currentPiece := Some (SHAPES ! 1)\<rparr>)) = (5, 18) \<and>
   exec (smallGame gapBoard None (0, 0)) (SelectShape 0 3) =
     Some (Inr (selectShape (smallGame gapBoard None (0, 0)) 0 3)) \<and>
   gameState (smallGame gapBoard None (0, 0)) = PLAYING \<and>
   gameState (selectShape (smallGame gapBoard None (0, 0)) 0 3) = GAME_OVER \<and>
   currentPiece (selectShape (smallGame gapBoard None (0, 0)) 0 3) = None"
proof -
  let ?f = "freshGame\<lparr>currentPiece := Some (SHAPES ! 1)\<rparr>"
  let ?g = "smallGame gapBoard None (0, 0)"
  have a: "SHAPES ! 1 \<in> set SHAPES" "currentPiece ?f = Some (SHAPES ! 1)"
    by (simp_all add: SHAPES_def)
  have w: "gridWidth ?f = 10" "gridHeight ?f = 20"
    by (simp_all add: freshGame_def init_def selectShape_frame Game_def orDefault_def
          emptyBoard_def Array_fill0_def GRID_WIDTH_def GRID_HEIGHT_def)
  have m: "Max (snd ` set (shape (SHAPES ! 1))) = 1"
    by (simp add: SHAPES_def)
  have e: "exec ?g (SelectShape 0 3) = Some (Inr (selectShape ?g 0 3))" by simp
  have s: "gameState (selectShape ?g 0 3) \<noteq> gameState ?g"
    by (simp add: eval_defs selectShape_def spawnNewPiece_def splice1_def maxY_of_def
          generateRandomShape_def)
  have p: "gameState ?g = PLAYING" by (simp add: smallGame_def)
  show ?thesis
    using a w m e s p
      spawn_position_and_game_over [of "SHAPES ! 1" ?f 0 0 MoveDown ?f]
      spawn_position_and_game_over [of "SHAPES ! 1" ?g 0 3 "SelectShape 0 3" "selectShape ?g 0 3"]
    by simp
qed

subsection \<open>Claim C6: determinism up to the random draw\<close>

lemma selectShape_withoutLastPreview:
  "withoutLastPreview (selectShape g index r) = withoutLastPreview (selectShape g index r')"
proof (cases "(index < 0 \<or> index \<ge> int (length (nextShapes g))) \<and> nextShapes g = []")
  case True
  then show ?thesis by (auto simp: selectShape_def Let_def)
next
  case False
  define idx where "idx = (if index < 0 \<or> index \<ge> int (length (nextShapes g)) then 0 else nat index)"
  define p where "p = nextShapes g ! idx"
  have sel: "selectShape g index k =
          spawnNewPiece (g\<lparr>currentPiece := Some p,
                           nextShapes := splice1 idx (nextShapes g) @ [generateRandomShape k]\<rparr>)"
    for k
    using False by (auto simp: selectShape_def Let_def idx_def p_def)
  have v: "isValidMove (g\<lparr>currentPiece := Some p,
                           nextShapes := splice1 idx (nextShapes g) @ [generateRandomShape k]\<rparr>)
             (Some p) pos = isValidMove g (Some p) pos" for k pos
    by (rule isValidMove_cong) simp_all
  show ?thesis
    unfolding sel by (simp add: spawnNewPiece_Some v withoutLastPreview_def)
qed

text \<open>
  Claim C6, as the code has it. One \<open>update\<close> step is a function of the state, of
  \<open>deltaTime\<close>, of the inputs and of the value drawn from \<open>Math.random\<close>. Two steps from
  the same state with the same \<open>deltaTime\<close> and inputs give results that agree on
  everything but the last entry of the preview queue (board, active piece, position,
  score, level, counter, status, timers and the rest of the queue are the same), and
  that are the same altogether when the step does no selection.
\<close>

theorem update_deterministic_up_to_draw:
  "map_option (map_sum id withoutLastPreview) (update g deltaTime inp r) =
   map_option (map_sum id withoutLastPreview) (update g deltaTime inp r') \<and>
   (gameState g \<noteq> PLAYING \<or> currentPiece g \<noteq> None \<or> selectShape_in inp = None
      \<longrightarrow> update g deltaTime inp r = update g deltaTime inp r')"
proof -
  have "update g deltaTime inp r = update g deltaTime inp r'"
    if "gameState g \<noteq> PLAYING \<or> currentPiece g \<noteq> None \<or> selectShape_in inp = None"
    using that by (auto simp: update_def split: option.splits)
  moreover have "map_option (map_sum id withoutLastPreview) (update g deltaTime inp r) =
     map_option (map_sum id withoutLastPreview) (update g deltaTime inp r')"
    if "\<not> (gameState g \<noteq> PLAYING \<or> currentPiece g \<noteq> None \<or> selectShape_in inp = None)"
    using that by (auto simp: update_def selectShape_withoutLastPreview)
  ultimately show ?thesis by metis
qed

text \<open>
  With a piece falling, the draw does not matter: the frame that moves the first piece
  of the fresh game to the left gives the same state for the draws 0 and 1.
\<close>

theorem update_deterministic_up_to_draw_witness:
  "currentPiece freshGame \<noteq> None \<and>
   update freshGame (1 / 10) leftInput 0 = update freshGame (1 / 10) leftInput 1 \<and>
   map_option (map_sum id currentPosition) (update freshGame (1 / 10) leftInput 0) =
     Some (Inr (4, 19))"
proof -
  have a: "currentPiece freshGame \<noteq> None" by code_simp
  have b: "map_option (map_sum id currentPosition) (update freshGame (1 / 10) leftInput 0) =
     Some (Inr (4, 19))" by code_simp
  show ?thesis
    using a b update_deterministic_up_to_draw [of freshGame "1 / 10" leftInput 0 1]
    by simp
qed

text \<open>
  Claim C6 as stated fails: from the same state, with the same \<open>deltaTime\<close> and the same
  inputs, the frame that selects preview slot 1 gives two different states when
  \<open>Math.random\<close> gives two different shapes, here the bar and the square.
\<close>

theorem update_random_counterexample:
  "update (smallGame gapBoard None (0, 0)) 0 selectInput 0
     \<noteq> update (smallGame gapBoard None (0, 0)) 0 selectInput 1"
  by (simp add: update_def selectShape_def spawnNewPiece_def eval_defs selectInput_def
        splice1_def generateRandomShape_def maxY_of_def)

subsection \<open>Claim C7: selecting from the preview queue\<close>

lemma selectShape_three:
  assumes "nextShapes g = [a, b, c]"
  shows "selectShape g index r =
           spawnNewPiece
             (g\<lparr>currentPiece := Some (if index = 1 then b else if index = 2 then c else a),
                nextShapes := (if index = 1 then [a, c] else if index = 2 then [a, b] else [b, c]) @
                              [generateRandomShape r]\<rparr>)"
proof -
  consider "index = 0" | "index = 1" | "index = 2" | "index < 0 \<or> 3 \<le> index" by linarith
  then show ?thesis
  proof cases
    case 1
    with assms show ?thesis by (simp add: selectShape_def splice1_def)
  next
    case 2
    with assms show ?thesis by (simp add: selectShape_def splice1_def)
  next
    case 3
    with assms show ?thesis by (simp add: selectShape_def splice1_def eval_nat_numeral)
  next
    case 4
    with assms show ?thesis by (auto simp: selectShape_def splice1_def Let_def)
  qed
qed



subsection \<open>Claim C8: GAME_OVER is terminal\<close>

lemma exec_status_monotone:
  assumes "exec g c = Some (Inr g')"
  shows "gameState g' = gameState g \<or> (gameState g = PLAYING \<and> gameState g' = GAME_OVER)"
proof (cases "gameState g' = gameState g")
  case True
  then show ?thesis by simp
next
  case False
  from exec_status [OF assms False] obtain index r where "g' = selectShape g index r" by blast
  with False selectShape_status [of g index r] have "gameState g' = GAME_OVER" by simp
  with False show ?thesis by (cases "gameState g") simp_all
qed

lemma run_status_monotone:
  "run g cs = Some (Inr g') \<Longrightarrow>
     gameState g' = gameState g \<or> (gameState g = PLAYING \<and> gameState g' = GAME_OVER)"
proof (induction cs arbitrary: g)
  case Nil
  then show ?case by simp
next
  case (Cons c cs)
  from Cons.prems obtain g1 where g1: "exec g c = Some (Inr g1)" "run g1 cs = Some (Inr g')"
    by (auto split: option.splits sum.splits)
  from exec_status_monotone [OF g1(1)] Cons.IH [OF g1(2)] show ?case by auto
qed

lemma game_over_movement_call:
  "gameState g = GAME_OVER \<Longrightarrow> movement_call c \<Longrightarrow> exec g c = Some (Inr g)"
  by (cases c) (simp_all add: moveDown_def moveHorizontal_def update_def)

lemma game_over_movement_run:
  "gameState g = GAME_OVER \<Longrightarrow> list_all movement_call cs \<Longrightarrow> run g cs = Some (Inr g)"
  by (induction cs) (simp_all add: game_over_movement_call)

text \<open>
  Claim C8. In a state whose status is \<open>GAME_OVER\<close>, \<open>moveDown\<close>, \<open>moveHorizontal\<close> and
  \<open>update\<close> return with the state as it was, and so does every sequence of such calls:
  no board cell changes. Over any sequence of calls whatever, a status that differs at
  the end from the one at the start was \<open>PLAYING\<close> and is \<open>GAME_OVER\<close>: the status
  never leaves \<open>GAME_OVER\<close>.
\<close>

theorem game_over_is_terminal:
  "(gameState g = GAME_OVER \<longrightarrow>
      moveDown g = Some (Inr g) \<and> moveHorizontal g direction = g \<and>
      update g deltaTime inp r = Some (Inr g) \<and>
      (list_all movement_call cs \<longrightarrow> run g cs = Some (Inr g))) \<and>
   (run g cs = Some (Inr g') \<and> gameState g' \<noteq> gameState g \<longrightarrow>
      gameState g = PLAYING \<and> gameState g' = GAME_OVER) \<and>
   (gameState g = GAME_OVER \<and> run g cs = Some (Inr g') \<longrightarrow> gameState g' = GAME_OVER)"
proof (intro conjI impI)
  assume go: "gameState g = GAME_OVER"
  then show "moveDown g = Some (Inr g)" by (simp add: moveDown_def)
  from go show "moveHorizontal g direction = g" by (simp add: moveHorizontal_def)
  from go show "update g deltaTime inp r = Some (Inr g)" by (simp add: update_def)
  assume "list_all movement_call cs"
  with go show "run g cs = Some (Inr g)" by (rule game_over_movement_run)
next
  assume "run g cs = Some (Inr g') \<and> gameState g' \<noteq> gameState g"
  with run_status_monotone [of g cs g']
  show "gameState g = PLAYING" "gameState g' = GAME_OVER" by auto
next
  assume "gameState g = GAME_OVER \<and> run g cs = Some (Inr g')"
  with run_status_monotone [of g cs g'] show "gameState g' = GAME_OVER" by auto
qed

text \<open>
  The 4 by 3 game that ended when the bar was selected: a move down, a move to the left
  and a frame with a selection leave it as it is.
\<close>

theorem game_over_is_terminal_witness:
  "gameState (selectShape (smallGame gapBoard None (0, 0)) 0 3) = GAME_OVER \<and>
   list_all movement_call [MoveDown, MoveHorizontal (- 1), Update 1 selectInput 2] \<and>
   run (selectShape (smallGame gapBoard None (0, 0)) 0 3)
       [MoveDown, MoveHorizontal (- 1), Update 1 selectInput 2] =
     Some (Inr (selectShape (smallGame gapBoard None (0, 0)) 0 3)) \<and>
   board (selectShape (smallGame gapBoard None (0, 0)) 0 3) = gapBoard"
proof -
  let ?g = "selectShape (smallGame gapBoard None (0, 0)) 0 3"
  have go: "gameState ?g = GAME_OVER"
    by (simp add: eval_defs selectShape_def spawnNewPiece_def splice1_def maxY_of_def
          generateRandomShape_def)
  have mv: "list_all movement_call [MoveDown, MoveHorizontal (- 1), Update 1 selectInput 2]"
    by simp
  have b: "board ?g = gapBoard" by (simp add: selectShape_frame smallGame_def)
  from go mv
    game_over_is_terminal [of ?g "- 1" 1 selectInput 2
      "[MoveDown, MoveHorizontal (- 1), Update 1 selectInput 2]" ?g]
  have "run ?g [MoveDown, MoveHorizontal (- 1), Update 1 selectInput 2] = Some (Inr ?g)"
    by blast
  with go mv b show ?thesis by blast
qed

subsection \<open>Claim C9: the dimensions of the board\<close>






subsection \<open>Claim C10: selectShape with a piece falling\<close>

lemma foldl_maxY:
  "foldl (\<lambda>maxY (dx, dy). if dy > maxY then dy else maxY) m offs =
     Max (insert m (snd ` set offs))"
proof (induction offs arbitrary: m)
  case Nil
  show ?case by simp
next
  case (Cons off rest)
  obtain dx dy where off: "off = (dx, dy)" by (cases off)
  have "Max (insert (max m dy) (snd ` set rest)) = Max (insert m (insert dy (snd ` set rest)))"
    by (cases "snd ` set rest = {}") (simp_all add: max.assoc)
  moreover have "(if dy > m then dy else m) = max m dy" by (auto simp: max_def)
  ultimately show ?case
    unfolding off by (simp add: Cons.IH del: Max_insert)
qed

lemma maxY_of_Max: "maxY_of offs = Max (insert 0 (snd ` set offs))"
  unfolding maxY_of_def by (rule foldl_maxY)

text \<open>
  Claim C10. \<open>selectShape\<close> does not look at the active piece. Called on a \<open>PLAYING\<close>
  state with a piece falling and the shapes \<open>a\<close>, \<open>b\<close>, \<open>c\<close> in the queue, it leaves the
  board, the score, the counter and the level as they are (the old piece is not written
  to the board), takes the chosen shape out of the queue and appends the drawn one. The
  chosen shape is spawned: the pivot moves to \<open>x = floor(gridWidth / 2)\<close>,
  \<open>y = gridHeight - 1 - maxY\<close>, \<open>maxY\<close> being the largest of 0 and the \<open>dy\<close> of the shape,
  the drop flag and the fall timer are reset, and exactly when \<open>isValidMove\<close> accepts
  the chosen shape at that pivot it is the active piece afterwards with the status
  still \<open>PLAYING\<close>; otherwise the status is \<open>GAME_OVER\<close> and no piece is active. \<open>update\<close>
  reaches \<open>selectShape\<close> only without an active piece: with a piece falling it ignores
  the selection input and leaves the queue as it is.
\<close>

theorem selectShape_replaces_active_piece:
  assumes "gameState g = PLAYING" and "currentPiece g = Some old"
    and "nextShapes g = [a, b, c]"
  shows "board (selectShape g index r) = board g \<and>
         score (selectShape g index r) = score g \<and>
         linesCleared (selectShape g index r) = linesCleared g \<and>
         level (selectShape g index r) = level g \<and>
         nextShapes (selectShape g index r) =
           (if index = 1 then [a, c] else if index = 2 then [a, b] else [b, c]) @
           [generateRandomShape r] \<and>
         selectShape g index r =
           spawnNewPiece
             (g\<lparr>currentPiece := Some (if index = 1 then b else if index = 2 then c else a),
                nextShapes := nextShapes (selectShape g index r)\<rparr>) \<and>
         currentPosition (selectShape g index r) =
           (gridWidth g div 2,
            gridHeight g - 1 -
              Max (insert 0 (snd ` set (shape (if index = 1 then b else if index = 2 then c
                                               else a))))) \<and>
         isDropping (selectShape g index r) = False \<and>
         fallTimer (selectShape g index r) = 0 \<and>
         (gameState (selectShape g index r) = GAME_OVER \<longleftrightarrow>
            \<not> isValidMove g (Some (if index = 1 then b else if index = 2 then c else a))
                 (currentPosition (selectShape g index r))) \<and>
         (if isValidMove g (Some (if index = 1 then b else if index = 2 then c else a))
               (currentPosition (selectShape g index r))
          then gameState (selectShape g index r) = PLAYING \<and>
               currentPiece (selectShape g index r) =
                 Some (if index = 1 then b else if index = 2 then c else a)
          else gameState (selectShape g index r) = GAME_OVER \<and>
               currentPiece (selectShape g index r) = None) \<and>
         update g deltaTime inp r = update g deltaTime (inp\<lparr>selectShape_in := None\<rparr>) r \<and>
         (update g deltaTime inp r = Some (Inr g') \<longrightarrow> nextShapes g' = nextShapes g)"
proof -
  let ?p = "if index = 1 then b else if index = 2 then c else a"
  let ?q = "(if index = 1 then [a, c] else if index = 2 then [a, b] else [b, c]) @
            [generateRandomShape r]"
  let ?g0 = "g\<lparr>currentPiece := Some ?p, nextShapes := ?q\<rparr>"
  let ?pos = "(gridWidth g div 2, gridHeight g - 1 - Max (insert 0 (snd ` set (shape ?p))))"
  note sel = selectShape_three [OF assms(3), of index r]
  have cp: "currentPiece ?g0 = Some ?p" by simp
  have v: "isValidMove ?g0 (Some ?p) pos = isValidMove g (Some ?p) pos" for pos
    by (rule isValidMove_cong) simp_all
  have res: "selectShape g index r =
               (if isValidMove g (Some ?p) ?pos
                then ?g0\<lparr>isDropping := False, fallTimer := 0, currentPosition := ?pos\<rparr>
                else ?g0\<lparr>isDropping := False, fallTimer := 0, currentPosition := ?pos,
                         gameState := GAME_OVER, currentPiece := None\<rparr>)"
    unfolding sel spawnNewPiece_Some [OF cp] by (simp add: v maxY_of_Max)
  have q: "nextShapes (selectShape g index r) = ?q"
    by (subst sel) (simp add: spawnNewPiece_frame)
  have sp: "selectShape g index r =
              spawnNewPiece (g\<lparr>currentPiece := Some ?p,
                               nextShapes := nextShapes (selectShape g index r)\<rparr>)"
    unfolding q by (rule sel)
  have pos: "currentPosition (selectShape g index r) = ?pos"
    by (subst res) simp
  have dr: "isDropping (selectShape g index r) = False"
    by (subst res) simp
  have ft: "fallTimer (selectShape g index r) = 0"
    by (subst res) simp
  have go: "gameState (selectShape g index r) = GAME_OVER \<longleftrightarrow>
              \<not> isValidMove g (Some ?p) (currentPosition (selectShape g index r))"
    unfolding pos by (subst res) (simp add: assms(1))
  have st: "if isValidMove g (Some ?p) (currentPosition (selectShape g index r))
            then gameState (selectShape g index r) = PLAYING \<and>
                 currentPiece (selectShape g index r) = Some ?p
            else gameState (selectShape g index r) = GAME_OVER \<and>
                 currentPiece (selectShape g index r) = None"
    unfolding pos by (subst (1 2 3 4) res) (simp add: assms(1))
  have u1: "update g deltaTime inp r = update g deltaTime (inp\<lparr>selectShape_in := None\<rparr>) r"
    using assms(2) by (simp add: update_def)
  have u2: "nextShapes g' = nextShapes g" if "update g deltaTime inp r = Some (Inr g')"
  proof (cases rule: update_cases [of g deltaTime inp r])
    case idle
    with that show ?thesis by simp
  next
    case (select i)
    with assms(2) show ?thesis by simp
  next
    case (fall g4)
    with that have "moveDown g4 = Some (Inr g') \<or> g4 = g'" by auto
    then have "nextShapes g' = nextShapes g4" by (auto dest: moveDown_queue)
    with fall show ?thesis by simp
  qed
  have fr: "board (selectShape g index r) = board g"
    "score (selectShape g index r) = score g"
    "linesCleared (selectShape g index r) = linesCleared g"
    "level (selectShape g index r) = level g"
    by (simp_all add: selectShape_frame)
  show ?thesis
    by (intro conjI impI; (rule fr q sp pos dr ft go st u1 | erule u2))
qed

text \<open>
  The fresh game has the bar falling at \<open>(5, 19)\<close>. Selecting slot 1 directly replaces
  it by the T-shape at its own spawn pivot \<open>(5, 18)\<close>, the board still empty and the new
  draw at the end of the queue; the frame update with the same selection input leaves
  the queue untouched. On the 4 by 3 board with the square falling, selecting the bar
  directly ends the game: the bar is rejected at its pivot \<open>(2, 2)\<close>, and no piece is
  active afterwards.
\<close>

theorem selectShape_replaces_active_piece_witness:
  "gameState freshGame = PLAYING \<and> currentPiece freshGame = Some (SHAPES ! 0) \<and>
   currentPosition freshGame = (5, 19) \<and>
   nextShapes freshGame = [SHAPES ! 1, SHAPES ! 2, SHAPES ! 3] \<and>
   board (selectShape freshGame 1 5) = board freshGame \<and>
   nextShapes (selectShape freshGame 1 5) = [SHAPES ! 1, SHAPES ! 3, SHAPES ! 5] \<and>
   currentPosition (selectShape freshGame 1 5) = (5, 18) \<and>
   gameState (selectShape freshGame 1 5) = PLAYING \<and>
   currentPiece (selectShape freshGame 1 5) = Some (SHAPES ! 2) \<and>
   map_option (map_sum id nextShapes) (update freshGame (1 / 10) leftInput 5) =
     Some (Inr [SHAPES ! 1, SHAPES ! 2, SHAPES ! 3]) \<and>
   gameState (smallGame gapBoard (Some (SHAPES ! 1)) (1, 0)) = PLAYING \<and>
   currentPosition (selectShape (smallGame gapBoard (Some (SHAPES ! 1)) (1, 0)) 0 5) = (2, 2) \<and>
   gameState (selectShape (smallGame gapBoard (Some (SHAPES ! 1)) (1, 0)) 0 5) = GAME_OVER \<and>
   currentPiece (selectShape (smallGame gapBoard (Some (SHAPES ! 1)) (1, 0)) 0 5) = None"
proof -
  let ?s = "smallGame gapBoard (Some (SHAPES ! 1)) (1, 0)"
  have h: "gameState freshGame = PLAYING" "currentPiece freshGame = Some (SHAPES ! 0)"
    "nextShapes freshGame = [SHAPES ! 1, SHAPES ! 2, SHAPES ! 3]"
    by code_simp+
  have d: "gridWidth freshGame = 10" "gridHeight freshGame = 20"
    "currentPosition freshGame = (5, 19)"
    by code_simp+
  have m: "Max (insert 0 (snd ` set (shape (SHAPES ! 2)))) = 1"
    "Max (insert 0 (snd ` set (shape (SHAPES ! 0)))) = 0"
    by (simp_all add: SHAPES_def)
  have ok: "isValidMove freshGame (Some (SHAPES ! 2)) (5, 18)" by code_simp
  have "case update freshGame (1 / 10) leftInput 5 of Some (Inr g') \<Rightarrow> True | _ \<Rightarrow> False"
    by code_simp
  then obtain g' where u: "update freshGame (1 / 10) leftInput 5 = Some (Inr g')"
    by (auto split: option.splits sum.splits)
  note t = selectShape_replaces_active_piece [OF h, of 1 5 "1 / 10" leftInput g']
  from t have b1: "board (selectShape freshGame 1 5) = board freshGame" by blast
  from t have q1: "nextShapes (selectShape freshGame 1 5) = [SHAPES ! 1, SHAPES ! 3, SHAPES ! 5]"
    by (simp add: generateRandomShape_def)
  from t d m have p1: "currentPosition (selectShape freshGame 1 5) = (5, 18)" by simp
  from t p1 ok have s1: "gameState (selectShape freshGame 1 5) = PLAYING"
    "currentPiece (selectShape freshGame 1 5) = Some (SHAPES ! 2)"
    by simp_all
  from t u h(3) have n1: "nextShapes g' = [SHAPES ! 1, SHAPES ! 2, SHAPES ! 3]" by simp
  have hs: "gameState ?s = PLAYING" "currentPiece ?s = Some (SHAPES ! 1)"
    "nextShapes ?s = [SHAPES ! 0, SHAPES ! 1, SHAPES ! 2]"
    by (simp_all add: smallGame_def)
  have ds: "gridWidth ?s = 4" "gridHeight ?s = 3" by (simp_all add: smallGame_def)
  have no: "\<not> isValidMove ?s (Some (SHAPES ! 0)) (2, 2)"
    by (simp add: eval_defs)
  have e: "(if (0 :: int) = 1 then SHAPES ! 1 else if (0 :: int) = 2 then SHAPES ! 2
            else SHAPES ! 0) = SHAPES ! 0"
    by simp
  note ts = selectShape_replaces_active_piece [OF hs, of 0 5 0 leftInput ?s, unfolded e]
  from ts have "currentPosition (selectShape ?s 0 5) =
                  (gridWidth ?s div 2,
                   gridHeight ?s - 1 - Max (insert 0 (snd ` set (shape (SHAPES ! 0)))))"
    by blast
  then have p2: "currentPosition (selectShape ?s 0 5) = (2, 2)"
    unfolding ds m by simp
  from ts have "if isValidMove ?s (Some (SHAPES ! 0)) (currentPosition (selectShape ?s 0 5))
                then gameState (selectShape ?s 0 5) = PLAYING \<and>
                     currentPiece (selectShape ?s 0 5) = Some (SHAPES ! 0)
                else gameState (selectShape ?s 0 5) = GAME_OVER \<and>
                     currentPiece (selectShape ?s 0 5) = None"
    by blast
  then have s2: "gameState (selectShape ?s 0 5) = GAME_OVER"
    "currentPiece (selectShape ?s 0 5) = None"
    unfolding p2 using no by (simp_all only: if_False)
  have "map_option (map_sum id nextShapes) (update freshGame (1 / 10) leftInput 5) =
          Some (Inr [SHAPES ! 1, SHAPES ! 2, SHAPES ! 3])"
    unfolding u using n1 by simp
  with h d(3) b1 q1 p1 s1 hs(1) p2 s2 show ?thesis by blast
qed

end
